theory Spec2Isabelle
  imports Main "HOL-Library.Word"
begin

section \<open>autosmp: hotplugging cpu cores by load (arch/arm/kernel/autosmp.c)\<close>

text \<open>
  A shallow embedding of the autosmp driver. The driver's globals (\<open>asmp_enabled\<close>,
  \<open>asmp_param\<close>, the delayed work \<open>asmp_work\<close>) and the two cpu masks of the kernel it
  reads and changes are the fields of one state record; every function of the driver
  takes the state and returns the new one. \<open>unsigned int\<close> and \<open>unsigned long\<close> are
  32-bit words (the file lives under arch/arm), so the products of line 80 and 81 wrap.
\<close>

subsection \<open>Data\<close>

type_synonym u32 = "32 word"

text \<open>\<open>struct asmp_param_struct\<close>, lines 42 to 58.\<close>

record asmp_param_struct =
  delay :: u32
  max_cpus :: u32
  min_cpus :: u32
  cpufreq_up :: u32
  cpufreq_down :: u32
  cycle_up :: u32
  cycle_down :: u32

text \<open>
  The delay handed to \<open>queue_delayed_work\<close>: the value of an \<open>unsigned long\<close> local,
  which is \<open>Uninitialized\<close> as long as no assignment to it has been executed.
\<close>

datatype jiffies = Uninitialized | Jiffies u32

text \<open>
  The state: the driver's globals, and the kernel's masks of present and of online cpus
  (sets of cpu numbers below \<open>nr_cpu_ids\<close>). \<open>asmp_work\<close> is \<open>None\<close> while the delayed
  work is not pending and holds the delay of its timer while it is.
\<close>

record state =
  asmp_enabled :: bool
  asmp_param :: asmp_param_struct
  asmp_work :: "jiffies option"
  nr_cpu_ids :: nat
  cpu_present_mask :: "nat set"
  cpu_online_mask :: "nat set"

text \<open>
  What the driver consumes from the rest of the kernel and cannot see into: the cpufreq
  policy of each cpu (\<open>None\<close> when the policy cannot be obtained, which is when a read of a
  rate fails), the cpus whose hotplug transition the kernel refuses, and the conversion
  of milliseconds to timer ticks.
\<close>

record platform =
  policy_max :: "nat \<Rightarrow> u32 option"
  policy_cur :: "nat \<Rightarrow> u32 option"
  cpu_up_fails :: "nat \<Rightarrow> bool"
  cpu_down_fails :: "nat \<Rightarrow> bool"
  msecs_to_jiffies :: "u32 \<Rightarrow> u32"

definition UINT_MAX :: u32 where
  "UINT_MAX = 0xFFFFFFFF"

definition EINVAL :: int where
  "EINVAL = 22"

text \<open>
  The state is well formed when the masks are as the kernel keeps them: every online cpu
  is present, every present cpu has a number below \<open>nr_cpu_ids\<close>, and the boot cpu 0 is
  online.
\<close>

definition wf_state :: "state \<Rightarrow> bool" where
  "wf_state s \<longleftrightarrow>
     cpu_online_mask s \<subseteq> cpu_present_mask s \<and>
     cpu_present_mask s \<subseteq> {..<nr_cpu_ids s} \<and>
     0 \<in> cpu_online_mask s"

subsection \<open>The kernel interfaces the driver calls\<close>

text \<open>
  Modelled from the spec: \<open>get_primary_max_rate() -> rate\<close>, the kernel's
  \<open>cpufreq_quick_get_max\<close>, which is not under src/. It returns an \<open>unsigned int\<close> and has
  no error channel: a read that fails delivers 0.
\<close>

definition cpufreq_quick_get_max :: "platform \<Rightarrow> nat \<Rightarrow> u32" where
  "cpufreq_quick_get_max pl cpu = (case policy_max pl cpu of None \<Rightarrow> 0 | Some r \<Rightarrow> r)"

text \<open>
  Modelled from the spec: \<open>get_core_rate(core_id) -> rate\<close>, the kernel's
  \<open>cpufreq_quick_get\<close>, which is not under src/; as above, 0 when the read fails.
\<close>

definition cpufreq_quick_get :: "platform \<Rightarrow> nat \<Rightarrow> u32" where
  "cpufreq_quick_get pl cpu = (case policy_cur pl cpu of None \<Rightarrow> 0 | Some r \<Rightarrow> r)"

text \<open>
  Modelled from the spec: \<open>online_core_ids()\<close> and \<open>present_core_ids()\<close>, the kernel's
  \<open>for_each_cpu\<close> over a mask, which is not under src/: the cpus of the mask in
  ascending order, below \<open>nr_cpu_ids\<close>.
\<close>

definition for_each_cpu :: "state \<Rightarrow> nat set \<Rightarrow> nat list" where
  "for_each_cpu s cpus = filter (\<lambda>cpu. cpu \<in> cpus) [0..<nr_cpu_ids s]"

definition for_each_online_cpu :: "state \<Rightarrow> nat list" where
  "for_each_online_cpu s = for_each_cpu s (cpu_online_mask s)"

definition for_each_present_cpu :: "state \<Rightarrow> nat list" where
  "for_each_present_cpu s = for_each_cpu s (cpu_present_mask s)"

text \<open>
  Modelled from the spec: the size of \<open>online_core_ids()\<close>, the kernel's
  \<open>num_online_cpus\<close>, which is not under src/. The count is at most \<open>nr_cpu_ids\<close>, so the
  unsigned comparisons of the driver against a parameter \<open>p\<close> are comparisons of this
  number with \<open>unat p\<close>.
\<close>

definition num_online_cpus :: "state \<Rightarrow> nat" where
  "num_online_cpus s = card (cpu_online_mask s)"

definition cpu_online :: "state \<Rightarrow> nat \<Rightarrow> bool" where
  "cpu_online s cpu \<longleftrightarrow> cpu \<in> cpu_online_mask s"

text \<open>
  Modelled from the spec: "the lowest-indexed currently-offline core", the kernel's
  \<open>cpumask_next_zero(n, srcp)\<close>, which is not under src/: the first cpu number above \<open>n\<close>
  that is not in the mask, and \<open>nr_cpu_ids\<close> when there is none.
\<close>

definition cpumask_next_zero :: "state \<Rightarrow> nat \<Rightarrow> nat set \<Rightarrow> nat" where
  "cpumask_next_zero s n cpus =
     (case filter (\<lambda>cpu. cpu \<notin> cpus) [Suc n..<nr_cpu_ids s] of
        [] \<Rightarrow> nr_cpu_ids s
      | cpu # _ \<Rightarrow> cpu)"

text \<open>
  Modelled from the spec: \<open>bring_online(core_id) -> Result<(), Error>\<close>, the kernel's
  \<open>cpu_up\<close>, which is not under src/. The driver ignores the result, so only the state is
  returned: the cpu joins the online mask unless it is not present, is online already,
  or the kernel refuses.
\<close>

definition cpu_up :: "platform \<Rightarrow> nat \<Rightarrow> state \<Rightarrow> state" where
  "cpu_up pl cpu s =
     (if cpu \<in> cpu_present_mask s \<and> cpu \<notin> cpu_online_mask s \<and> \<not> cpu_up_fails pl cpu
      then s\<lparr>cpu_online_mask := insert cpu (cpu_online_mask s)\<rparr>
      else s)"

text \<open>
  Modelled from the spec: \<open>take_offline(core_id) -> Result<(), Error>\<close>, the kernel's
  \<open>cpu_down\<close>, which is not under src/: the cpu leaves the online mask unless it is not
  online or the kernel refuses.
\<close>

definition cpu_down :: "platform \<Rightarrow> nat \<Rightarrow> state \<Rightarrow> state" where
  "cpu_down pl cpu s =
     (if cpu \<in> cpu_online_mask s \<and> \<not> cpu_down_fails pl cpu
      then s\<lparr>cpu_online_mask := cpu_online_mask s - {cpu}\<rparr>
      else s)"

text \<open>
  Modelled from the spec: the ControlLoopScheduler's start and stop, the kernel's
  \<open>queue_delayed_work\<close> and \<open>cancel_delayed_work_sync\<close>, which are not under src/. Queueing
  a work that is pending already changes nothing; a work that is not pending becomes
  pending with the delay given.
\<close>

definition queue_delayed_work :: "jiffies \<Rightarrow> state \<Rightarrow> state" where
  "queue_delayed_work d s =
     (case asmp_work s of None \<Rightarrow> s\<lparr>asmp_work := Some d\<rparr> | Some _ \<Rightarrow> s)"

definition cancel_delayed_work_sync :: "state \<Rightarrow> state" where
  "cancel_delayed_work_sync s = s\<lparr>asmp_work := None\<rparr>"

subsection \<open>The tick: \<open>asmp_work_fn\<close>\<close>

text \<open>
  The body of the loop of lines 87 to 95, on the locals \<open>(slow_cpu, slow_rate, fast_rate)\<close>.
\<close>

definition scan_cpu :: "platform \<Rightarrow> nat \<Rightarrow> nat \<times> u32 \<times> u32 \<Rightarrow> nat \<times> u32 \<times> u32" where
  "scan_cpu pl cpu acc =
     (case acc of (slow_cpu, slow_rate, fast_rate) \<Rightarrow>
        if cpu \<noteq> 0 then
          (let rate = cpufreq_quick_get pl cpu in
           if rate \<le> slow_rate then (cpu, rate, fast_rate)
           else if rate > fast_rate then (slow_cpu, slow_rate, rate)
           else (slow_cpu, slow_rate, fast_rate))
        else (slow_cpu, slow_rate, fast_rate))"

text \<open>
  Lines 84 to 98: the values of \<open>slow_cpu\<close>, \<open>slow_rate\<close> and \<open>fast_rate\<close> when the tick
  reaches its decision.
\<close>

definition asmp_sample :: "platform \<Rightarrow> state \<Rightarrow> nat \<times> u32 \<times> u32" where
  "asmp_sample pl s =
     (let cpu0_rate = cpufreq_quick_get pl 0;
          (slow_cpu, slow_rate, fast_rate) =
             fold (scan_cpu pl) (for_each_online_cpu s) (0, UINT_MAX, cpu0_rate)
      in (slow_cpu, if cpu0_rate < slow_rate then cpu0_rate else slow_rate, fast_rate))"

text \<open>
  Lines 64 to 119. \<open>cycle\<close> is a local of the function, set to 0 at each entry and
  incremented once; \<open>delay_jif\<close> is a local that only the enabled branch assigns.
\<close>

definition asmp_work_fn :: "platform \<Rightarrow> state \<Rightarrow> state" where
  "asmp_work_fn pl s =
     (if asmp_enabled s then
        (let cycle = (0 :: u32) + 1;
             delay0 = delay (asmp_param s);
             delay_jif = Jiffies (msecs_to_jiffies pl delay0);
             max_rate = cpufreq_quick_get_max pl 0;
             up_rate = cpufreq_up (asmp_param s) * max_rate div 100;
             down_rate = cpufreq_down (asmp_param s) * max_rate div 100;
             nr_cpu_online = num_online_cpus s;
             (slow_cpu, slow_rate, fast_rate) = asmp_sample pl s;
             s' =
               (if slow_rate > up_rate then
                  (if nr_cpu_online < unat (max_cpus (asmp_param s)) \<and>
                      cycle \<ge> cycle_up (asmp_param s)
                   then cpu_up pl (cpumask_next_zero s 0 (cpu_online_mask s)) s
                   else s)
                else if slow_cpu \<noteq> 0 \<and> fast_rate < down_rate then
                  (if nr_cpu_online > unat (min_cpus (asmp_param s)) \<and>
                      cycle \<ge> cycle_down (asmp_param s)
                   then cpu_down pl slow_cpu s
                   else s)
                else s)
         in queue_delayed_work delay_jif s')
      else queue_delayed_work Uninitialized s)"

text \<open>
  Modelled from the spec: "while Running, fires one tick every \<open>delay_ms\<close>", the kernel's
  workqueue, which is not under src/: a pending work stops being pending when its timer
  expires, and then its function runs.
\<close>

definition run_work :: "platform \<Rightarrow> state \<Rightarrow> state" where
  "run_work pl s = asmp_work_fn pl (s\<lparr>asmp_work := None\<rparr>)"

text \<open>Consecutive ticks, each with the rates the cpus have at that tick.\<close>

fun run_works :: "platform list \<Rightarrow> state \<Rightarrow> state" where
  "run_works [] s = s"
| "run_works (pl # pls) s = run_works pls (run_work pl s)"

subsection \<open>Suspend and resume\<close>

text \<open>The body of the loop of lines 129 to 133.\<close>

definition suspend_cpu :: "platform \<Rightarrow> nat \<Rightarrow> state \<Rightarrow> state" where
  "suspend_cpu pl cpu s =
     (if cpu \<noteq> 0 \<and> cpu_online s cpu \<and> num_online_cpus s > unat (min_cpus (asmp_param s))
      then cpu_down pl cpu s
      else s)"

text \<open>Lines 121 to 137.\<close>

definition asmp_early_suspend :: "platform \<Rightarrow> state \<Rightarrow> state" where
  "asmp_early_suspend pl s =
     (if \<not> asmp_enabled s then s
      else cancel_delayed_work_sync (fold (suspend_cpu pl) (for_each_present_cpu s) s))"

text \<open>The body of the loops of lines 147 to 151 and of lines 177 to 181.\<close>

definition online_cpu :: "platform \<Rightarrow> nat \<Rightarrow> state \<Rightarrow> state" where
  "online_cpu pl cpu s =
     (if \<not> cpu_online s cpu \<and> num_online_cpus s < unat (max_cpus (asmp_param s))
      then cpu_up pl cpu s
      else s)"

text \<open>Lines 139 to 156.\<close>

definition asmp_late_resume :: "platform \<Rightarrow> state \<Rightarrow> state" where
  "asmp_late_resume pl s =
     (if \<not> asmp_enabled s then s
      else queue_delayed_work (Jiffies (msecs_to_jiffies pl (delay (asmp_param s))))
             (fold (online_cpu pl) (for_each_present_cpu s) s))"

subsection \<open>The enable switch\<close>

text \<open>
  Modelled from the spec: write access to \<open>enabled\<close> (boolean), the kernel's
  \<open>param_set_bool\<close>, which is not under src/: the first character decides, \<open>y\<close>, \<open>Y\<close> and
  \<open>1\<close> for true, \<open>n\<close>, \<open>N\<close> and \<open>0\<close> for false, and anything else is refused with
  \<open>-EINVAL\<close> and leaves the flag as it is.
\<close>

definition param_set_bool :: "string \<Rightarrow> state \<Rightarrow> int \<times> state" where
  "param_set_bool val s =
     (case val of
        [] \<Rightarrow> (- EINVAL, s)
      | c # _ \<Rightarrow>
          if c \<in> {CHR ''y'', CHR ''Y'', CHR ''1''} then (0, s\<lparr>asmp_enabled := True\<rparr>)
          else if c \<in> {CHR ''n'', CHR ''N'', CHR ''0''} then (0, s\<lparr>asmp_enabled := False\<rparr>)
          else (- EINVAL, s))"

text \<open>Lines 164 to 186.\<close>

definition set_asmp_enabled :: "platform \<Rightarrow> string \<Rightarrow> state \<Rightarrow> int \<times> state" where
  "set_asmp_enabled pl val s =
     (case param_set_bool val s of (ret, s1) \<Rightarrow>
        if asmp_enabled s1 then
          (ret, queue_delayed_work (Jiffies (msecs_to_jiffies pl (delay (asmp_param s1)))) s1)
        else
          (ret, fold (online_cpu pl) (for_each_present_cpu s1) (cancel_delayed_work_sync s1)))"

subsection \<open>The parameter files\<close>

text \<open>
  Modelled from the spec: the parsing of a "numeric" parameter write, the kernel's
  \<open>sscanf\<close> with the format \<open>%u\<close>, which is not under src/: white space is skipped, at
  least one decimal digit must follow, and the digits are read as an \<open>unsigned int\<close>
  (modulo \<open>2 ^ 32\<close>); what follows the digits is ignored. \<open>None\<close> is the return value 0
  (no conversion).
\<close>

definition isspace :: "char \<Rightarrow> bool" where
  "isspace c \<longleftrightarrow> c \<in> {CHR '' '', CHR 0x09, CHR 0x0A, CHR 0x0B, CHR 0x0C, CHR 0x0D}"

definition isdigit :: "char \<Rightarrow> bool" where
  "isdigit c \<longleftrightarrow> c \<in> set ''0123456789''"

definition digit_val :: "char \<Rightarrow> nat" where
  "digit_val c = of_char c - 48"

definition sscanf_u :: "string \<Rightarrow> u32 option" where
  "sscanf_u buf =
     (let ds = takeWhile isdigit (dropWhile isspace buf)
      in if ds = [] then None
         else Some (of_nat (foldl (\<lambda>n c. 10 * n + digit_val c) 0 ds)))"

text \<open>
  Lines 221 to 233, the macro \<open>store_one\<close>: \<open>upd\<close> is the assignment to the field
  \<open>asmp_param.object\<close> of the instance. The result is the return value and the new state.
\<close>

definition store_one ::
  "(u32 \<Rightarrow> asmp_param_struct \<Rightarrow> asmp_param_struct) \<Rightarrow> string \<Rightarrow> nat \<Rightarrow> state \<Rightarrow> int \<times> state"
where
  "store_one upd buf count s =
     (case sscanf_u buf of
        None \<Rightarrow> (- EINVAL, s)
      | Some input \<Rightarrow> (int count, s\<lparr>asmp_param := upd input (asmp_param s)\<rparr>))"

text \<open>Lines 234 to 240, the seven instances.\<close>

definition store_delay :: "string \<Rightarrow> nat \<Rightarrow> state \<Rightarrow> int \<times> state" where
  "store_delay = store_one (\<lambda>v p. p\<lparr>delay := v\<rparr>)"

definition store_min_cpus :: "string \<Rightarrow> nat \<Rightarrow> state \<Rightarrow> int \<times> state" where
  "store_min_cpus = store_one (\<lambda>v p. p\<lparr>min_cpus := v\<rparr>)"

definition store_max_cpus :: "string \<Rightarrow> nat \<Rightarrow> state \<Rightarrow> int \<times> state" where
  "store_max_cpus = store_one (\<lambda>v p. p\<lparr>max_cpus := v\<rparr>)"

definition store_cpufreq_up :: "string \<Rightarrow> nat \<Rightarrow> state \<Rightarrow> int \<times> state" where
  "store_cpufreq_up = store_one (\<lambda>v p. p\<lparr>cpufreq_up := v\<rparr>)"

definition store_cpufreq_down :: "string \<Rightarrow> nat \<Rightarrow> state \<Rightarrow> int \<times> state" where
  "store_cpufreq_down = store_one (\<lambda>v p. p\<lparr>cpufreq_down := v\<rparr>)"

definition store_cycle_up :: "string \<Rightarrow> nat \<Rightarrow> state \<Rightarrow> int \<times> state" where
  "store_cycle_up = store_one (\<lambda>v p. p\<lparr>cycle_up := v\<rparr>)"

definition store_cycle_down :: "string \<Rightarrow> nat \<Rightarrow> state \<Rightarrow> int \<times> state" where
  "store_cycle_down = store_one (\<lambda>v p. p\<lparr>cycle_down := v\<rparr>)"

subsection \<open>Concrete machines for the scenarios\<close>

text \<open>The initialiser of \<open>asmp_param\<close>, lines 50 to 58, on a machine of four cpus.\<close>

definition asmp_param_init :: asmp_param_struct where
  "asmp_param_init =
     \<lparr>delay = 100, max_cpus = 4, min_cpus = 1, cpufreq_up = 90, cpufreq_down = 60,
      cycle_up = 1, cycle_down = 1\<rparr>"

text \<open>
  A machine with four present cpus of which those of \<open>on\<close> are online, the driver
  enabled and its work not pending.
\<close>

definition quad :: "asmp_param_struct \<Rightarrow> nat set \<Rightarrow> state" where
  "quad p on =
     \<lparr>asmp_enabled = True, asmp_param = p, asmp_work = None, nr_cpu_ids = 4,
      cpu_present_mask = {0, 1, 2, 3}, cpu_online_mask = on\<rparr>"

text \<open>
  A platform on which every hotplug transition succeeds, the maximum rate of every cpu
  reads as \<open>mx\<close> and the current rate of cpu \<open>c\<close> as the entry \<open>c\<close> of the list \<open>rs\<close>; a
  timer tick is 10 ms.
\<close>

definition rates :: "u32 option \<Rightarrow> u32 list \<Rightarrow> platform" where
  "rates mx rs =
     \<lparr>policy_max = (\<lambda>_. mx),
      policy_cur = (\<lambda>c. if c < length rs then Some (rs ! c) else None),
      cpu_up_fails = (\<lambda>_. False), cpu_down_fails = (\<lambda>_. False),
      msecs_to_jiffies = (\<lambda>m. (m + 9) div 10)\<rparr>"

section \<open>Properties\<close>

subsection \<open>What the primitives leave alone\<close>

lemma queue_delayed_work_fields:
  "cpu_online_mask (queue_delayed_work d s) = cpu_online_mask s"
  "cpu_present_mask (queue_delayed_work d s) = cpu_present_mask s"
  "nr_cpu_ids (queue_delayed_work d s) = nr_cpu_ids s"
  "asmp_param (queue_delayed_work d s) = asmp_param s"
  "asmp_enabled (queue_delayed_work d s) = asmp_enabled s"
  by (simp_all add: queue_delayed_work_def split: option.split)

lemma cpu_up_fields:
  "cpu_present_mask (cpu_up pl c s) = cpu_present_mask s"
  "nr_cpu_ids (cpu_up pl c s) = nr_cpu_ids s"
  "asmp_param (cpu_up pl c s) = asmp_param s"
  "asmp_enabled (cpu_up pl c s) = asmp_enabled s"
  "asmp_work (cpu_up pl c s) = asmp_work s"
  by (simp_all add: cpu_up_def)

lemma cpu_down_fields:
  "cpu_present_mask (cpu_down pl c s) = cpu_present_mask s"
  "nr_cpu_ids (cpu_down pl c s) = nr_cpu_ids s"
  "asmp_param (cpu_down pl c s) = asmp_param s"
  "asmp_enabled (cpu_down pl c s) = asmp_enabled s"
  "asmp_work (cpu_down pl c s) = asmp_work s"
  by (simp_all add: cpu_down_def)

subsection \<open>The tick of a disabled driver\<close>

text \<open>
  Claim C10. When \<open>asmp_enabled\<close> is false at entry, the tick changes nothing but still
  queues the work again, and the delay it passes is the local \<open>delay_jif\<close>, to which that
  path has assigned nothing: the work is pending with an uninitialized delay.
\<close>

theorem tick_disabled_requeues_uninitialized:
  "\<not> asmp_enabled s \<Longrightarrow> run_work pl s = s\<lparr>asmp_work := Some Uninitialized\<rparr>"
  by (simp add: run_work_def asmp_work_fn_def queue_delayed_work_def)

theorem tick_disabled_requeues_uninitialized_witness:
  "\<not> asmp_enabled ((quad asmp_param_init {0})\<lparr>asmp_enabled := False\<rparr>) \<and>
   asmp_work (run_work (rates (Some 1000) [950, 950, 950, 950])
      ((quad asmp_param_init {0})\<lparr>asmp_enabled := False\<rparr>)) = Some Uninitialized"
  using tick_disabled_requeues_uninitialized
    [of "(quad asmp_param_init {0})\<lparr>asmp_enabled := False\<rparr>" "rates (Some 1000) [950, 950, 950, 950]"]
  by (simp add: quad_def)

subsection \<open>Hysteresis\<close>

text \<open>
  The counter \<open>cycle\<close> is 1 at every comparison with \<open>cycle_up\<close> and \<open>cycle_down\<close>, so a
  tick acts only if the parameter is at most 1: with both above 1, no tick ever changes
  the online mask, whatever the rates are.
\<close>

lemma tick_never_acts_when_cycles_above_one:
  assumes "1 < cycle_up (asmp_param s)" and "1 < cycle_down (asmp_param s)"
  shows "cpu_online_mask (asmp_work_fn pl s) = cpu_online_mask s"
proof -
  from assms have "\<not> cycle_up (asmp_param s) \<le> 1" and "\<not> cycle_down (asmp_param s) \<le> 1"
    by (simp_all add: not_le)
  then show ?thesis
    by (simp add: asmp_work_fn_def Let_def queue_delayed_work_fields split: prod.split)
qed

text \<open>
  Claim C1, at the inputs where the code departs from it. With \<open>cycle_up = 2\<close>, one cpu
  online of four and every rate at 950 of 1000 (above the 90 percent limit), the second
  consecutive saturated tick should bring a cpu online; no cpu comes online. With
  \<open>cycle_down = 2\<close>, two cpus online and every rate at 500 of 1000 (below the 60 percent
  limit), the second consecutive idle tick should take cpu 1 offline; it stays online.
  The same ticks do act when the parameter is 1: a single tick brings cpu 1 online in the
  first setting and takes it offline in the second.
\<close>

theorem hysteresis_not_accumulated:
  "cpu_online_mask
     (run_works [rates (Some 1000) [950, 950, 950, 950], rates (Some 1000) [950, 950, 950, 950]]
        (quad (asmp_param_init\<lparr>cycle_up := 2\<rparr>) {0})) = {0} \<and>
   cpu_online_mask
     (run_works [rates (Some 1000) [500, 500, 500, 500], rates (Some 1000) [500, 500, 500, 500]]
        (quad (asmp_param_init\<lparr>cycle_down := 2\<rparr>) {0, 1})) = {0, 1} \<and>
   cpu_online_mask
     (run_works [rates (Some 1000) [950, 950, 950, 950]]
        (quad (asmp_param_init\<lparr>cycle_up := 1\<rparr>) {0})) = {0, 1} \<and>
   cpu_online_mask
     (run_works [rates (Some 1000) [500, 500, 500, 500]]
        (quad (asmp_param_init\<lparr>cycle_down := 1\<rparr>) {0, 1})) = {0}"
  by code_simp

subsection \<open>Parameter writes\<close>

lemma sscanf_u_None:
  "sscanf_u buf = None \<longleftrightarrow>
     (case dropWhile isspace buf of [] \<Rightarrow> True | c # _ \<Rightarrow> \<not> isdigit c)"
proof -
  define rest where "rest = dropWhile isspace buf"
  have "takeWhile isdigit rest = [] \<longleftrightarrow> (case rest of [] \<Rightarrow> True | c # _ \<Rightarrow> \<not> isdigit c)"
    by (cases rest) simp_all
  then show ?thesis
    unfolding sscanf_u_def Let_def rest_def [symmetric] by (simp del: takeWhile_eq_Nil_iff)
qed

text \<open>
  Claim C6 as stated fails: writes of 0 to \<open>min_cpus\<close>, of 9 to \<open>max_cpus\<close> on a machine
  of four cpus and of 0 to \<open>delay\<close> are all accepted and stored.
\<close>

theorem store_out_of_range_accepted:
  "store_min_cpus ''0'' 2 (quad asmp_param_init {0}) =
     (2, quad (asmp_param_init\<lparr>min_cpus := 0\<rparr>) {0}) \<and>
   store_max_cpus ''9'' 2 (quad asmp_param_init {0}) =
     (2, quad (asmp_param_init\<lparr>max_cpus := 9\<rparr>) {0}) \<and>
   store_delay ''0'' 2 (quad asmp_param_init {0}) =
     (2, quad (asmp_param_init\<lparr>delay := 0\<rparr>) {0})"
  by code_simp

text \<open>
  Claim C6, amended. A write is rejected exactly when it is not numeric, that is when no
  decimal digit follows the leading white space: then the store returns \<open>-EINVAL\<close> and the
  state is as before. Every numeric write is stored as it is read, with no check of its
  range, and returns \<open>count\<close>. This holds for each of the seven stores, which are instances
  of \<open>store_one\<close>.
\<close>

theorem store_one_rejects_only_non_numeric:
  "(sscanf_u buf = None \<longrightarrow> store_one upd buf count s = (- EINVAL, s)) \<and>
   (\<forall>v. sscanf_u buf = Some v \<longrightarrow>
        store_one upd buf count s = (int count, s\<lparr>asmp_param := upd v (asmp_param s)\<rparr>)) \<and>
   (sscanf_u buf = None \<longleftrightarrow>
     (case dropWhile isspace buf of [] \<Rightarrow> True | c # _ \<Rightarrow> \<not> isdigit c))"
  using sscanf_u_None [of buf] by (auto simp add: store_one_def)

theorem store_one_rejects_only_non_numeric_witness:
  "sscanf_u ''abc'' = None \<and>
   store_cycle_up ''abc'' 4 (quad asmp_param_init {0}) = (- EINVAL, quad asmp_param_init {0}) \<and>
   sscanf_u '' 7'' = Some 7 \<and>
   store_cycle_up '' 7'' 3 (quad asmp_param_init {0}) =
     (3, (quad asmp_param_init {0})\<lparr>asmp_param := asmp_param_init\<lparr>cycle_up := 7\<rparr>\<rparr>)"
proof -
  have n: "sscanf_u ''abc'' = None" and v: "sscanf_u '' 7'' = Some 7"
    by code_simp+
  from n v
    store_one_rejects_only_non_numeric
      [of "''abc''" "\<lambda>v p. p\<lparr>cycle_up := v\<rparr>" 4 "quad asmp_param_init {0}"]
    store_one_rejects_only_non_numeric
      [of "'' 7''" "\<lambda>v p. p\<lparr>cycle_up := v\<rparr>" 3 "quad asmp_param_init {0}"]
  show ?thesis
    by (simp add: store_cycle_up_def quad_def)
qed

subsection \<open>Well-formed states and the loops over the present cpus\<close>

lemma wf_state_finite: "wf_state s \<Longrightarrow> finite (cpu_online_mask s) \<and> finite (cpu_present_mask s)"
  unfolding wf_state_def by (meson finite_lessThan finite_subset)

lemma wf_quad: "0 \<in> on \<Longrightarrow> on \<subseteq> {0, 1, 2, 3} \<Longrightarrow> wf_state (quad p on)"
  by (auto simp add: wf_state_def quad_def)

lemma set_for_each_cpu: "set (for_each_cpu s cpus) = cpus \<inter> {..<nr_cpu_ids s}"
  by (auto simp add: for_each_cpu_def)

lemma set_for_each_present_cpu:
  "wf_state s \<Longrightarrow> set (for_each_present_cpu s) = cpu_present_mask s"
  by (auto simp add: for_each_present_cpu_def set_for_each_cpu wf_state_def)

lemma set_for_each_online_cpu:
  "wf_state s \<Longrightarrow> set (for_each_online_cpu s) = cpu_online_mask s"
  by (auto simp add: for_each_online_cpu_def set_for_each_cpu wf_state_def)

lemma num_online_cpu_up:
  "finite (cpu_online_mask s) \<Longrightarrow>
   num_online_cpus s \<le> num_online_cpus (cpu_up pl c s) \<and>
   num_online_cpus (cpu_up pl c s) \<le> Suc (num_online_cpus s)"
  by (simp add: cpu_up_def num_online_cpus_def)

lemma num_online_cpu_down:
  "finite (cpu_online_mask s) \<Longrightarrow>
   num_online_cpus s - 1 \<le> num_online_cpus (cpu_down pl c s) \<and>
   num_online_cpus (cpu_down pl c s) \<le> num_online_cpus s"
  by (simp add: cpu_down_def num_online_cpus_def card_Diff_subset)

lemma num_online_queue: "num_online_cpus (queue_delayed_work d s) = num_online_cpus s"
  by (simp add: num_online_cpus_def queue_delayed_work_fields)

subsection \<open>The bounds on the number of online cpus\<close>

text \<open>
  Claim C5. If the number of online cpus lies between \<open>min_cpus\<close> and \<open>max_cpus\<close> before a
  tick, it does so after the tick: the tick brings at most one cpu online, and only when
  the number is below \<open>max_cpus\<close>, and takes at most one offline, and only when the number
  is above \<open>min_cpus\<close>. This holds whether the driver is enabled or not, and whether the
  hotplug transition succeeds or not.
\<close>

theorem tick_keeps_bounds:
  assumes "wf_state s"
    and "unat (min_cpus (asmp_param s)) \<le> num_online_cpus s"
    and "num_online_cpus s \<le> unat (max_cpus (asmp_param s))"
  shows "unat (min_cpus (asmp_param (asmp_work_fn pl s))) \<le> num_online_cpus (asmp_work_fn pl s) \<and>
         num_online_cpus (asmp_work_fn pl s) \<le> unat (max_cpus (asmp_param (asmp_work_fn pl s)))"
proof -
  from assms(1) have fin: "finite (cpu_online_mask s)"
    by (simp add: wf_state_finite)
  note up = num_online_cpu_up [OF fin, of pl]
  note down = num_online_cpu_down [OF fin, of pl]
  show ?thesis
  proof (cases "asmp_enabled s")
    case False
    with assms show ?thesis
      by (simp add: asmp_work_fn_def num_online_queue queue_delayed_work_fields)
  next
    case True
    obtain slow_cpu slow_rate fast_rate where smp: "asmp_sample pl s = (slow_cpu, slow_rate, fast_rate)"
      by (cases "asmp_sample pl s")
    from up [of "cpumask_next_zero s 0 (cpu_online_mask s)"] down [of slow_cpu] assms(2,3) True smp
    show ?thesis
      by (auto simp add: asmp_work_fn_def Let_def num_online_queue queue_delayed_work_fields
          cpu_up_fields cpu_down_fields)
  qed
qed

theorem tick_keeps_bounds_witness:
  "wf_state (quad asmp_param_init {0}) \<and>
   unat (min_cpus (asmp_param (quad asmp_param_init {0}))) \<le> num_online_cpus (quad asmp_param_init {0}) \<and>
   num_online_cpus (quad asmp_param_init {0}) \<le> unat (max_cpus (asmp_param (quad asmp_param_init {0}))) \<and>
   cpu_online_mask (asmp_work_fn (rates (Some 1000) [950, 950, 950, 950]) (quad asmp_param_init {0})) = {0, 1} \<and>
   unat (min_cpus (asmp_param (asmp_work_fn (rates (Some 1000) [950, 950, 950, 950]) (quad asmp_param_init {0}))))
     \<le> num_online_cpus (asmp_work_fn (rates (Some 1000) [950, 950, 950, 950]) (quad asmp_param_init {0})) \<and>
   num_online_cpus (asmp_work_fn (rates (Some 1000) [950, 950, 950, 950]) (quad asmp_param_init {0}))
     \<le> unat (max_cpus (asmp_param (asmp_work_fn (rates (Some 1000) [950, 950, 950, 950]) (quad asmp_param_init {0}))))"
proof -
  have wf: "wf_state (quad asmp_param_init {0})"
    by (simp add: wf_quad)
  have lo: "unat (min_cpus (asmp_param (quad asmp_param_init {0}))) \<le> num_online_cpus (quad asmp_param_init {0})"
    by (simp add: quad_def asmp_param_init_def num_online_cpus_def)
  have hi: "num_online_cpus (quad asmp_param_init {0}) \<le> unat (max_cpus (asmp_param (quad asmp_param_init {0})))"
    by (simp add: quad_def asmp_param_init_def num_online_cpus_def)
  have act: "cpu_online_mask (asmp_work_fn (rates (Some 1000) [950, 950, 950, 950]) (quad asmp_param_init {0})) = {0, 1}"
    by code_simp
  from tick_keeps_bounds [OF wf lo hi, of "rates (Some 1000) [950, 950, 950, 950]"] wf lo hi act
  show ?thesis by blast
qed

subsection \<open>The primary cpu\<close>

lemma zero_online_cpu_up: "0 \<in> cpu_online_mask s \<Longrightarrow> 0 \<in> cpu_online_mask (cpu_up pl c s)"
  by (simp add: cpu_up_def)

lemma zero_online_cpu_down:
  "c \<noteq> 0 \<Longrightarrow> 0 \<in> cpu_online_mask s \<Longrightarrow> 0 \<in> cpu_online_mask (cpu_down pl c s)"
  by (simp add: cpu_down_def)

lemma zero_online_suspend_loop:
  "0 \<in> cpu_online_mask s \<Longrightarrow> 0 \<in> cpu_online_mask (fold (suspend_cpu pl) xs s)"
  by (induction xs arbitrary: s) (simp_all add: suspend_cpu_def zero_online_cpu_down)

lemma zero_online_online_loop:
  "0 \<in> cpu_online_mask s \<Longrightarrow> 0 \<in> cpu_online_mask (fold (online_cpu pl) xs s)"
  by (induction xs arbitrary: s) (simp_all add: online_cpu_def zero_online_cpu_up)

lemma zero_online_tick:
  "0 \<in> cpu_online_mask s \<Longrightarrow> 0 \<in> cpu_online_mask (asmp_work_fn pl s)"
  by (simp add: asmp_work_fn_def Let_def queue_delayed_work_fields zero_online_cpu_up
      zero_online_cpu_down split: prod.split)

lemma zero_online_suspend:
  "0 \<in> cpu_online_mask s \<Longrightarrow> 0 \<in> cpu_online_mask (asmp_early_suspend pl s)"
  by (simp add: asmp_early_suspend_def cancel_delayed_work_sync_def zero_online_suspend_loop)

lemma zero_online_resume:
  "0 \<in> cpu_online_mask s \<Longrightarrow> 0 \<in> cpu_online_mask (asmp_late_resume pl s)"
  by (simp add: asmp_late_resume_def queue_delayed_work_fields zero_online_online_loop)

lemma param_set_bool_online:
  "cpu_online_mask (snd (param_set_bool val s)) = cpu_online_mask s"
  by (simp add: param_set_bool_def split: list.split)

lemma zero_online_set_enabled:
  assumes "0 \<in> cpu_online_mask s"
  shows "0 \<in> cpu_online_mask (snd (set_asmp_enabled pl val s))"
proof -
  obtain ret s1 where p: "param_set_bool val s = (ret, s1)"
    by (cases "param_set_bool val s")
  with param_set_bool_online [of val s] assms have "0 \<in> cpu_online_mask s1"
    by simp
  then have "0 \<in> cpu_online_mask (cancel_delayed_work_sync s1)"
    by (simp add: cancel_delayed_work_sync_def)
  with p \<open>0 \<in> cpu_online_mask s1\<close> show ?thesis
    by (simp add: set_asmp_enabled_def queue_delayed_work_fields zero_online_online_loop)
qed

text \<open>
  Claim C7. No operation of the driver takes cpu 0 offline: the tick calls \<open>cpu_down\<close> only
  on a \<open>slow_cpu\<close> that is not 0, the suspend loop only on a \<open>cpu\<close> that is not 0, and
  resume, the enable switch and the parameter stores never call it. So cpu 0, once
  online, is online after each of them, also on a platform where \<open>cpu_down\<close> never fails.
\<close>

theorem primary_never_offline:
  assumes "0 \<in> cpu_online_mask s"
  shows "0 \<in> cpu_online_mask (asmp_work_fn pl s) \<and>
         0 \<in> cpu_online_mask (asmp_early_suspend pl s) \<and>
         0 \<in> cpu_online_mask (asmp_late_resume pl s) \<and>
         0 \<in> cpu_online_mask (snd (set_asmp_enabled pl val s)) \<and>
         0 \<in> cpu_online_mask (snd (store_one upd buf count s))"
  using assms
  by (simp add: zero_online_tick zero_online_suspend zero_online_resume zero_online_set_enabled
      store_one_def split: option.split)

theorem primary_never_offline_witness:
  "0 \<in> cpu_online_mask (quad asmp_param_init {0, 1}) \<and>
   0 \<in> cpu_online_mask (asmp_work_fn (rates (Some 1000) [500, 500, 500, 500]) (quad asmp_param_init {0, 1})) \<and>
   1 \<notin> cpu_online_mask (asmp_work_fn (rates (Some 1000) [500, 500, 500, 500]) (quad asmp_param_init {0, 1})) \<and>
   0 \<in> cpu_online_mask (asmp_early_suspend (rates (Some 1000) [500, 500, 500, 500]) (quad asmp_param_init {0, 1})) \<and>
   1 \<notin> cpu_online_mask (asmp_early_suspend (rates (Some 1000) [500, 500, 500, 500]) (quad asmp_param_init {0, 1}))"
proof -
  have z: "0 \<in> cpu_online_mask (quad asmp_param_init {0, 1})"
    by (simp add: quad_def)
  have t: "1 \<notin> cpu_online_mask (asmp_work_fn (rates (Some 1000) [500, 500, 500, 500]) (quad asmp_param_init {0, 1}))"
    by code_simp
  have u: "1 \<notin> cpu_online_mask (asmp_early_suspend (rates (Some 1000) [500, 500, 500, 500]) (quad asmp_param_init {0, 1}))"
    by code_simp
  from primary_never_offline [OF z, of "rates (Some 1000) [500, 500, 500, 500]"] z t u
  show ?thesis by blast
qed

subsection \<open>A tick without the maximum rate\<close>


text \<open>
  The cpu handed to \<open>cpu_up\<close> is the lowest number above 0 that is not online, whether
  or not a cpu of that number is present: with cpus 0, 2 and 3 present, the tick asks for
  cpu 1 and no cpu comes online.
\<close>

lemma absent_cpu_stays_offline:
  "cpu_online_mask (asmp_work_fn (rates None [500, 500, 500, 500])
     ((quad asmp_param_init {0})\<lparr>cpu_present_mask := {0, 2, 3}\<rparr>)) = {0}"
  by code_simp




subsection \<open>Suspend\<close>

lemma suspend_cpu_fields:
  "cpu_present_mask (suspend_cpu pl c s) = cpu_present_mask s"
  "nr_cpu_ids (suspend_cpu pl c s) = nr_cpu_ids s"
  "asmp_param (suspend_cpu pl c s) = asmp_param s"
  "asmp_enabled (suspend_cpu pl c s) = asmp_enabled s"
  "asmp_work (suspend_cpu pl c s) = asmp_work s"
  by (simp_all add: suspend_cpu_def cpu_down_fields)

lemma suspend_loop_fields:
  "cpu_present_mask (fold (suspend_cpu pl) xs s) = cpu_present_mask s"
  "nr_cpu_ids (fold (suspend_cpu pl) xs s) = nr_cpu_ids s"
  "asmp_param (fold (suspend_cpu pl) xs s) = asmp_param s"
  "asmp_enabled (fold (suspend_cpu pl) xs s) = asmp_enabled s"
  "asmp_work (fold (suspend_cpu pl) xs s) = asmp_work s"
  by (induction xs arbitrary: s) (simp_all add: suspend_cpu_fields)

lemma suspend_cpu_online:
  "cpu_online_mask (suspend_cpu pl c s) \<subseteq> cpu_online_mask s"
  by (auto simp add: suspend_cpu_def cpu_down_def)

lemma suspend_loop_online:
  "cpu_online_mask (fold (suspend_cpu pl) xs s) \<subseteq> cpu_online_mask s"
proof (induction xs arbitrary: s)
  case Nil
  show ?case by simp
next
  case (Cons c xs)
  from Cons.IH [of "suspend_cpu pl c s"] suspend_cpu_online [of pl c s]
  show ?case by auto
qed

lemma suspend_loop_card:
  assumes ok: "\<forall>c. \<not> cpu_down_fails pl c"
  shows "finite (cpu_online_mask s) \<Longrightarrow>
    num_online_cpus (fold (suspend_cpu pl) xs s) =
      min (num_online_cpus s)
        (max (unat (min_cpus (asmp_param s))) (card (cpu_online_mask s - (set xs - {0}))))"
proof (induction xs arbitrary: s)
  case Nil
  show ?case by (simp add: num_online_cpus_def)
next
  case (Cons c xs)
  let ?on = "cpu_online_mask s"
  let ?m = "unat (min_cpus (asmp_param s))"
  show ?case
  proof (cases "c \<noteq> 0 \<and> c \<in> ?on \<and> ?m < card ?on")
    case True
    then have step: "suspend_cpu pl c s = s\<lparr>cpu_online_mask := ?on - {c}\<rparr>"
      using ok by (simp add: suspend_cpu_def cpu_down_def cpu_online_def num_online_cpus_def)
    have sets: "?on - {c} - (set xs - {0}) = ?on - (set (c # xs) - {0})"
      using True by auto
    have "card (?on - (set (c # xs) - {0})) \<le> card (?on - {c})"
      using True Cons.prems by (intro card_mono) auto
    moreover have "card (?on - {c}) = card ?on - 1"
      using True Cons.prems by simp
    ultimately show ?thesis
      using True Cons.IH [of "s\<lparr>cpu_online_mask := ?on - {c}\<rparr>"] Cons.prems
      by (simp add: step num_online_cpus_def sets) arith
  next
    case False
    then have step: "suspend_cpu pl c s = s"
      by (auto simp add: suspend_cpu_def cpu_down_def cpu_online_def num_online_cpus_def)
    show ?thesis
    proof (cases "c \<noteq> 0 \<and> c \<in> ?on")
      case True
      with False have "card ?on \<le> ?m" by simp
      with Cons.IH [of s] Cons.prems show ?thesis
        by (simp add: step num_online_cpus_def)
    next
      case no: False
      then have "?on - (set (c # xs) - {0}) = ?on - (set xs - {0})"
        by auto
      with Cons.IH [of s] Cons.prems show ?thesis
        by (simp add: step)
    qed
  qed
qed

text \<open>
  Claim C2 as stated fails: with \<open>min_cpus = 2\<close> and four cpus online, suspend takes cpus 1
  and 2 offline and stops; cpu 3 stays online beside cpu 0.
\<close>

theorem suspend_respects_min_cpus:
  "cpu_online_mask
     (asmp_early_suspend (rates (Some 1000) [500, 500, 500, 500])
        (quad (asmp_param_init\<lparr>min_cpus := 2\<rparr>) {0, 1, 2, 3})) = {0, 3}"
  by code_simp

text \<open>
  Claim C2, amended. The suspend loop takes a cpu offline only while more than \<open>min_cpus\<close>
  cpus are online. On a suspend signal while enabled (and with \<open>cpu_down\<close> succeeding),
  the cpus other than cpu 0 go offline in ascending order until \<open>max min_cpus 1\<close> are left
  (or nothing happens, when no more than that are online); cpu 0 stays online and the work
  is cancelled. Exactly cpu 0 is online afterwards when \<open>min_cpus\<close> is at most 1.
\<close>

theorem suspend_offlines_down_to_min_cpus:
  assumes "wf_state s" and "asmp_enabled s" and "\<forall>c. \<not> cpu_down_fails pl c"
  shows "num_online_cpus (asmp_early_suspend pl s) =
           min (num_online_cpus s) (max (unat (min_cpus (asmp_param s))) 1) \<and>
         cpu_online_mask (asmp_early_suspend pl s) \<subseteq> cpu_online_mask s \<and>
         0 \<in> cpu_online_mask (asmp_early_suspend pl s) \<and>
         asmp_work (asmp_early_suspend pl s) = None \<and>
         (unat (min_cpus (asmp_param s)) \<le> 1 \<longrightarrow> cpu_online_mask (asmp_early_suspend pl s) = {0})"
proof -
  let ?s' = "asmp_early_suspend pl s"
  let ?loop = "fold (suspend_cpu pl) (for_each_present_cpu s) s"
  from assms(1) have fin: "finite (cpu_online_mask s)" and zero: "0 \<in> cpu_online_mask s"
    and sub: "cpu_online_mask s \<subseteq> cpu_present_mask s"
    by (simp_all add: wf_state_finite) (simp_all add: wf_state_def)
  have on: "cpu_online_mask ?s' = cpu_online_mask ?loop"
    using assms(2) by (simp add: asmp_early_suspend_def cancel_delayed_work_sync_def)
  have "cpu_online_mask s - (set (for_each_present_cpu s) - {0}) = {0}"
    using zero sub by (auto simp add: set_for_each_present_cpu [OF assms(1)])
  with suspend_loop_card [OF assms(3) fin, of "for_each_present_cpu s"]
  have card: "num_online_cpus ?s' = min (num_online_cpus s) (max (unat (min_cpus (asmp_param s))) 1)"
    using on by (simp add: num_online_cpus_def)
  have subset: "cpu_online_mask ?s' \<subseteq> cpu_online_mask s"
    using on suspend_loop_online [of pl "for_each_present_cpu s" s] by simp
  have z: "0 \<in> cpu_online_mask ?s'"
    using on zero_online_suspend_loop [OF zero] by simp
  have work: "asmp_work ?s' = None"
    using assms(2) by (simp add: asmp_early_suspend_def cancel_delayed_work_sync_def)
  have "cpu_online_mask ?s' = {0}" if "unat (min_cpus (asmp_param s)) \<le> 1"
  proof -
    have "1 \<le> num_online_cpus s"
      using fin zero by (auto simp add: num_online_cpus_def Suc_le_eq card_gt_0_iff)
    with card that have "card (cpu_online_mask ?s') = 1"
      by (simp add: num_online_cpus_def)
    then obtain x where "cpu_online_mask ?s' = {x}"
      by (auto simp add: card_1_singleton_iff)
    with z show ?thesis by auto
  qed
  with card subset z work show ?thesis by blast
qed

theorem suspend_offlines_down_to_min_cpus_witness:
  "wf_state (quad asmp_param_init {0, 1, 2, 3}) \<and> asmp_enabled (quad asmp_param_init {0, 1, 2, 3}) \<and>
   unat (min_cpus (asmp_param (quad asmp_param_init {0, 1, 2, 3}))) \<le> 1 \<and>
   cpu_online_mask (asmp_early_suspend (rates (Some 1000) [500, 500, 500, 500]) (quad asmp_param_init {0, 1, 2, 3})) = {0}"
proof -
  have wf: "wf_state (quad asmp_param_init {0, 1, 2, 3})"
    by (simp add: wf_quad)
  have e: "asmp_enabled (quad asmp_param_init {0, 1, 2, 3})"
    by (simp add: quad_def)
  have ok: "\<forall>c. \<not> cpu_down_fails (rates (Some 1000) [500, 500, 500, 500]) c"
    by (simp add: rates_def)
  have m: "unat (min_cpus (asmp_param (quad asmp_param_init {0, 1, 2, 3}))) \<le> 1"
    by (simp add: quad_def asmp_param_init_def)
  from suspend_offlines_down_to_min_cpus [OF wf e ok] wf e ok m show ?thesis by blast
qed

subsection \<open>Bringing the present cpus online: resume and disable\<close>

lemma online_cpu_fields:
  "cpu_present_mask (online_cpu pl c s) = cpu_present_mask s"
  "nr_cpu_ids (online_cpu pl c s) = nr_cpu_ids s"
  "asmp_param (online_cpu pl c s) = asmp_param s"
  "asmp_enabled (online_cpu pl c s) = asmp_enabled s"
  "asmp_work (online_cpu pl c s) = asmp_work s"
  by (simp_all add: online_cpu_def cpu_up_fields)

lemma online_loop_fields:
  "cpu_present_mask (fold (online_cpu pl) xs s) = cpu_present_mask s"
  "nr_cpu_ids (fold (online_cpu pl) xs s) = nr_cpu_ids s"
  "asmp_param (fold (online_cpu pl) xs s) = asmp_param s"
  "asmp_enabled (fold (online_cpu pl) xs s) = asmp_enabled s"
  "asmp_work (fold (online_cpu pl) xs s) = asmp_work s"
  by (induction xs arbitrary: s) (simp_all add: online_cpu_fields)





subsection \<open>Repeating a signal\<close>

lemma online_cpu_unchanged:
  "online_cpu pl c s = s \<longleftrightarrow>
     c \<in> cpu_online_mask s \<or> unat (max_cpus (asmp_param s)) \<le> num_online_cpus s \<or>
     c \<notin> cpu_present_mask s \<or> cpu_up_fails pl c"
proof -
  have neq: "s\<lparr>cpu_online_mask := insert c (cpu_online_mask s)\<rparr> \<noteq> s" if "c \<notin> cpu_online_mask s"
  proof
    assume "s\<lparr>cpu_online_mask := insert c (cpu_online_mask s)\<rparr> = s"
    then have "cpu_online_mask (s\<lparr>cpu_online_mask := insert c (cpu_online_mask s)\<rparr>) = cpu_online_mask s"
      by (rule arg_cong)
    with that show False by auto
  qed
  show ?thesis
    by (auto simp add: online_cpu_def cpu_up_def cpu_online_def neq)
qed

lemma online_cpu_stays_unchanged:
  assumes "finite (cpu_online_mask s)" and "online_cpu pl c s = s"
  shows "online_cpu pl c (online_cpu pl y s) = online_cpu pl y s"
proof -
  from assms(1) have "num_online_cpus s \<le> num_online_cpus (online_cpu pl y s)"
    by (simp add: online_cpu_def num_online_cpu_up)
  moreover have "cpu_online_mask s \<subseteq> cpu_online_mask (online_cpu pl y s)"
    by (auto simp add: online_cpu_def cpu_up_def)
  ultimately show ?thesis
    using assms(2) unfolding online_cpu_unchanged online_cpu_fields by auto
qed

lemma online_cpu_finite:
  "finite (cpu_online_mask s) \<Longrightarrow> finite (cpu_online_mask (online_cpu pl c s))"
  by (simp add: online_cpu_def cpu_up_def)

lemma online_loop_stays_unchanged:
  "finite (cpu_online_mask s) \<Longrightarrow> online_cpu pl c s = s \<Longrightarrow>
   online_cpu pl c (fold (online_cpu pl) xs s) = fold (online_cpu pl) xs s"
  by (induction xs arbitrary: s) (simp_all add: online_cpu_finite online_cpu_stays_unchanged)

lemma online_cpu_twice: "online_cpu pl c (online_cpu pl c s) = online_cpu pl c s"
  unfolding online_cpu_unchanged by (simp add: online_cpu_def cpu_up_def cpu_online_def)

lemma online_loop_saturated:
  "finite (cpu_online_mask s) \<Longrightarrow> c \<in> set xs \<Longrightarrow>
   online_cpu pl c (fold (online_cpu pl) xs s) = fold (online_cpu pl) xs s"
proof (induction xs arbitrary: s)
  case Nil
  then show ?case by simp
next
  case (Cons x xs)
  show ?case
  proof (cases "c = x")
    case True
    with Cons.prems show ?thesis
      by (simp add: online_loop_stays_unchanged online_cpu_finite online_cpu_twice)
  next
    case False
    with Cons show ?thesis
      by (simp add: online_cpu_finite)
  qed
qed

lemma online_loop_nothing_to_do:
  "\<forall>c\<in>set xs. online_cpu pl c s = s \<Longrightarrow> fold (online_cpu pl) xs s = s"
  by (induction xs) simp_all

lemma online_loop_twice:
  "finite (cpu_online_mask s) \<Longrightarrow>
   fold (online_cpu pl) xs (fold (online_cpu pl) xs s) = fold (online_cpu pl) xs s"
  by (rule online_loop_nothing_to_do) (simp add: online_loop_saturated)

lemma online_cpu_work:
  "online_cpu pl c (s\<lparr>asmp_work := w\<rparr>) = (online_cpu pl c s)\<lparr>asmp_work := w\<rparr>"
  by (simp add: online_cpu_def cpu_up_def cpu_online_def num_online_cpus_def)

lemma online_loop_work:
  "fold (online_cpu pl) xs (s\<lparr>asmp_work := w\<rparr>) = (fold (online_cpu pl) xs s)\<lparr>asmp_work := w\<rparr>"
  by (induction xs arbitrary: s) (simp_all add: online_cpu_work)

lemma suspend_cpu_unchanged:
  "suspend_cpu pl c s = s \<longleftrightarrow>
     c = 0 \<or> c \<notin> cpu_online_mask s \<or> num_online_cpus s \<le> unat (min_cpus (asmp_param s)) \<or>
     cpu_down_fails pl c"
proof -
  have neq: "s\<lparr>cpu_online_mask := cpu_online_mask s - {c}\<rparr> \<noteq> s" if "c \<in> cpu_online_mask s"
  proof
    assume "s\<lparr>cpu_online_mask := cpu_online_mask s - {c}\<rparr> = s"
    then have "cpu_online_mask (s\<lparr>cpu_online_mask := cpu_online_mask s - {c}\<rparr>) = cpu_online_mask s"
      by (rule arg_cong)
    with that show False by auto
  qed
  show ?thesis
    by (auto simp add: suspend_cpu_def cpu_down_def cpu_online_def neq)
qed

lemma suspend_cpu_finite:
  "finite (cpu_online_mask s) \<Longrightarrow> finite (cpu_online_mask (suspend_cpu pl c s))"
  by (simp add: suspend_cpu_def cpu_down_def)

lemma suspend_cpu_stays_unchanged:
  assumes "finite (cpu_online_mask s)" and "suspend_cpu pl c s = s"
  shows "suspend_cpu pl c (suspend_cpu pl y s) = suspend_cpu pl y s"
proof -
  from assms(1) have "num_online_cpus (suspend_cpu pl y s) \<le> num_online_cpus s"
    by (simp add: suspend_cpu_def num_online_cpu_down)
  moreover note suspend_cpu_online [of pl y s]
  ultimately show ?thesis
    using assms(2) unfolding suspend_cpu_unchanged suspend_cpu_fields by auto
qed

lemma suspend_loop_stays_unchanged:
  "finite (cpu_online_mask s) \<Longrightarrow> suspend_cpu pl c s = s \<Longrightarrow>
   suspend_cpu pl c (fold (suspend_cpu pl) xs s) = fold (suspend_cpu pl) xs s"
  by (induction xs arbitrary: s) (simp_all add: suspend_cpu_finite suspend_cpu_stays_unchanged)

lemma suspend_cpu_twice: "suspend_cpu pl c (suspend_cpu pl c s) = suspend_cpu pl c s"
  unfolding suspend_cpu_unchanged by (auto simp add: suspend_cpu_def cpu_down_def cpu_online_def)

lemma suspend_loop_saturated:
  "finite (cpu_online_mask s) \<Longrightarrow> c \<in> set xs \<Longrightarrow>
   suspend_cpu pl c (fold (suspend_cpu pl) xs s) = fold (suspend_cpu pl) xs s"
proof (induction xs arbitrary: s)
  case Nil
  then show ?case by simp
next
  case (Cons x xs)
  show ?case
  proof (cases "c = x")
    case True
    with Cons.prems show ?thesis
      by (simp add: suspend_loop_stays_unchanged suspend_cpu_finite suspend_cpu_twice)
  next
    case False
    with Cons show ?thesis
      by (simp add: suspend_cpu_finite)
  qed
qed

lemma suspend_loop_nothing_to_do:
  "\<forall>c\<in>set xs. suspend_cpu pl c s = s \<Longrightarrow> fold (suspend_cpu pl) xs s = s"
  by (induction xs) simp_all

lemma suspend_loop_twice:
  "finite (cpu_online_mask s) \<Longrightarrow>
   fold (suspend_cpu pl) xs (fold (suspend_cpu pl) xs s) = fold (suspend_cpu pl) xs s"
  by (rule suspend_loop_nothing_to_do) (simp add: suspend_loop_saturated)

lemma suspend_cpu_work:
  "suspend_cpu pl c (s\<lparr>asmp_work := w\<rparr>) = (suspend_cpu pl c s)\<lparr>asmp_work := w\<rparr>"
  by (simp add: suspend_cpu_def cpu_down_def cpu_online_def num_online_cpus_def)

lemma suspend_loop_work:
  "fold (suspend_cpu pl) xs (s\<lparr>asmp_work := w\<rparr>) = (fold (suspend_cpu pl) xs s)\<lparr>asmp_work := w\<rparr>"
  by (induction xs arbitrary: s) (simp_all add: suspend_cpu_work)

lemma queue_delayed_work_update:
  "queue_delayed_work d s =
     s\<lparr>asmp_work := Some (case asmp_work s of None \<Rightarrow> d | Some d' \<Rightarrow> d')\<rparr>"
  by (simp add: queue_delayed_work_def split: option.split)

lemma resume_twice:
  assumes "finite (cpu_online_mask s)"
  shows "asmp_late_resume pl (asmp_late_resume pl s) = asmp_late_resume pl s"
proof (cases "asmp_enabled s")
  case False
  then show ?thesis by (simp add: asmp_late_resume_def)
next
  case True
  let ?xs = "for_each_present_cpu s"
  let ?s1 = "fold (online_cpu pl) ?xs s"
  obtain d where once: "asmp_late_resume pl s = ?s1\<lparr>asmp_work := Some d\<rparr>"
    using True by (simp add: asmp_late_resume_def queue_delayed_work_update)
  have xs: "for_each_present_cpu (?s1\<lparr>asmp_work := Some d\<rparr>) = ?xs"
    by (simp add: for_each_present_cpu_def for_each_cpu_def online_loop_fields)
  have "fold (online_cpu pl) ?xs (?s1\<lparr>asmp_work := Some d\<rparr>) = ?s1\<lparr>asmp_work := Some d\<rparr>"
    by (simp add: online_loop_work online_loop_twice [OF assms])
  then have "asmp_late_resume pl (?s1\<lparr>asmp_work := Some d\<rparr>) = ?s1\<lparr>asmp_work := Some d\<rparr>"
    using True by (simp add: asmp_late_resume_def xs online_loop_fields queue_delayed_work_def)
  then show ?thesis by (simp add: once)
qed

lemma suspend_twice:
  assumes "finite (cpu_online_mask s)"
  shows "asmp_early_suspend pl (asmp_early_suspend pl s) = asmp_early_suspend pl s"
proof (cases "asmp_enabled s")
  case False
  then show ?thesis by (simp add: asmp_early_suspend_def)
next
  case True
  let ?xs = "for_each_present_cpu s"
  let ?s1 = "fold (suspend_cpu pl) ?xs s"
  have once: "asmp_early_suspend pl s = ?s1\<lparr>asmp_work := None\<rparr>"
    using True by (simp add: asmp_early_suspend_def cancel_delayed_work_sync_def)
  have xs: "for_each_present_cpu (?s1\<lparr>asmp_work := None\<rparr>) = ?xs"
    by (simp add: for_each_present_cpu_def for_each_cpu_def suspend_loop_fields)
  have "fold (suspend_cpu pl) ?xs (?s1\<lparr>asmp_work := None\<rparr>) = ?s1\<lparr>asmp_work := None\<rparr>"
    by (simp add: suspend_loop_work suspend_loop_twice [OF assms])
  then have "asmp_early_suspend pl (?s1\<lparr>asmp_work := None\<rparr>) = ?s1\<lparr>asmp_work := None\<rparr>"
    using True by (simp add: asmp_early_suspend_def xs suspend_loop_fields cancel_delayed_work_sync_def)
  then show ?thesis by (simp add: once)
qed

text \<open>
  Claim C9. A second resume signal right after the first leaves the whole state as the
  first left it, the set of online cpus and the pending work included: the loop finds no
  cpu it can still bring online, and queueing a pending work changes nothing. The same
  holds for a second suspend signal after the first. (A hotplug transition that the
  kernel refuses is refused again.)
\<close>

theorem resume_and_suspend_idempotent:
  assumes "wf_state s"
  shows "asmp_late_resume pl (asmp_late_resume pl s) = asmp_late_resume pl s \<and>
         asmp_early_suspend pl (asmp_early_suspend pl s) = asmp_early_suspend pl s"
  using assms by (simp add: wf_state_finite resume_twice suspend_twice)

theorem resume_and_suspend_idempotent_witness:
  "wf_state (quad asmp_param_init {0}) \<and>
   asmp_late_resume (rates (Some 1000) [500, 500, 500, 500]) (quad asmp_param_init {0}) =
     (quad asmp_param_init {0, 1, 2, 3})\<lparr>asmp_work := Some (Jiffies 10)\<rparr> \<and>
   asmp_late_resume (rates (Some 1000) [500, 500, 500, 500])
     (asmp_late_resume (rates (Some 1000) [500, 500, 500, 500]) (quad asmp_param_init {0})) =
     (quad asmp_param_init {0, 1, 2, 3})\<lparr>asmp_work := Some (Jiffies 10)\<rparr>"
proof -
  have wf: "wf_state (quad asmp_param_init {0})"
    by (simp add: wf_quad)
  have r: "asmp_late_resume (rates (Some 1000) [500, 500, 500, 500]) (quad asmp_param_init {0}) =
     (quad asmp_param_init {0, 1, 2, 3})\<lparr>asmp_work := Some (Jiffies 10)\<rparr>"
    by code_simp
  have i: "asmp_late_resume (rates (Some 1000) [500, 500, 500, 500])
       (asmp_late_resume (rates (Some 1000) [500, 500, 500, 500]) (quad asmp_param_init {0})) =
     asmp_late_resume (rates (Some 1000) [500, 500, 500, 500]) (quad asmp_param_init {0})"
    using resume_and_suspend_idempotent [OF wf] by (rule conjunct1)
  show ?thesis
    by (rule conjI [OF wf conjI [OF r trans [OF i r]]])
qed

subsection \<open>The sampled rates\<close>

lemma Min_insert_insert:
  fixes a b :: "'a::linorder"
  assumes "finite S"
  shows "Min (insert a (insert b S)) = Min (insert (min a b) S)"
proof (cases "S = {}")
  case True
  then show ?thesis by (simp add: min.commute)
next
  case False
  with assms show ?thesis
    by (simp add: min.assoc)
qed

lemma scan_cpu_slow_rate:
  "fst (snd (scan_cpu pl c (sc, sr, fr))) =
     (if c \<noteq> 0 then min sr (cpufreq_quick_get pl c) else sr)"
  by (auto simp add: scan_cpu_def Let_def min_def)

lemma scan_loop_slow_rate:
  "fst (snd (fold (scan_cpu pl) xs (sc, sr, fr))) =
     Min (insert sr (cpufreq_quick_get pl ` (set xs - {0})))"
proof (induction xs arbitrary: sc sr fr)
  case Nil
  show ?case by simp
next
  case (Cons c xs)
  obtain sc' sr' fr' where step: "scan_cpu pl c (sc, sr, fr) = (sc', sr', fr')"
    by (cases "scan_cpu pl c (sc, sr, fr)")
  with scan_cpu_slow_rate [of pl c sc sr fr]
  have sr': "sr' = (if c \<noteq> 0 then min sr (cpufreq_quick_get pl c) else sr)"
    by simp
  have unroll: "fold (scan_cpu pl) (c # xs) (sc, sr, fr) = fold (scan_cpu pl) xs (sc', sr', fr')"
    by (simp add: step)
  show ?case
  proof (cases "c = 0")
    case True
    then have "set (c # xs) - {0} = set xs - {0}" by auto
    with True sr' Cons.IH [of sc' sr' fr'] show ?thesis
      unfolding unroll by simp
  next
    case False
    then have "set (c # xs) - {0} = insert c (set xs - {0})" by auto
    with False sr' Cons.IH [of sc' sr' fr'] show ?thesis
      unfolding unroll by (simp add: Min_insert_insert del: Min_insert)
  qed
qed

lemma scan_cpu_fast_rate:
  "fr \<le> snd (snd (scan_cpu pl c (sc, sr, fr))) \<and>
   (snd (snd (scan_cpu pl c (sc, sr, fr))) = fr \<or>
    c \<noteq> 0 \<and> snd (snd (scan_cpu pl c (sc, sr, fr))) = cpufreq_quick_get pl c)"
  by (auto simp add: scan_cpu_def Let_def)

lemma scan_loop_fast_rate:
  "fr \<le> snd (snd (fold (scan_cpu pl) xs (sc, sr, fr))) \<and>
   (snd (snd (fold (scan_cpu pl) xs (sc, sr, fr))) = fr \<or>
    snd (snd (fold (scan_cpu pl) xs (sc, sr, fr))) \<in> cpufreq_quick_get pl ` (set xs - {0}))"
proof (induction xs arbitrary: sc sr fr)
  case Nil
  show ?case by simp
next
  case (Cons c xs)
  obtain sc' sr' fr' where step: "scan_cpu pl c (sc, sr, fr) = (sc', sr', fr')"
    by (cases "scan_cpu pl c (sc, sr, fr)")
  with scan_cpu_fast_rate [where fr = fr and pl = pl and c = c and sc = sc and sr = sr]
  have fr': "fr \<le> fr'" "fr' = fr \<or> c \<noteq> 0 \<and> fr' = cpufreq_quick_get pl c"
    by simp_all
  from Cons.IH [where sc = sc' and sr = sr' and fr = fr'] fr' show ?case
    by (auto simp add: step)
qed

lemma asmp_sample_rates:
  "fst (snd (asmp_sample pl s)) =
     min (cpufreq_quick_get pl 0)
       (fst (snd (fold (scan_cpu pl) (for_each_online_cpu s) (0, UINT_MAX, cpufreq_quick_get pl 0))))"
  "snd (snd (asmp_sample pl s)) =
     snd (snd (fold (scan_cpu pl) (for_each_online_cpu s) (0, UINT_MAX, cpufreq_quick_get pl 0)))"
  by (auto simp add: asmp_sample_def Let_def min_def split: prod.split)

lemma UINT_MAX_greatest: "x \<le> UINT_MAX"
proof -
  have "x \<le> (- 1 :: u32)"
    by simp
  also have "(- 1 :: u32) = UINT_MAX"
    by (simp add: UINT_MAX_def)
  finally show ?thesis .
qed

text \<open>
  Claim C4 as stated fails for \<open>fast_rate\<close>: with cpu 0 at rate 1000 and cpu 1, the only
  other online cpu, at rate 500, \<open>fast_rate\<close> is 1000, while the maximum over the online
  cpus other than cpu 0 is 500.
\<close>

theorem fast_rate_counts_primary:
  "snd (snd (asmp_sample (rates (Some 1000) [1000, 500, 500, 500])
      (quad asmp_param_init {0, 1}))) = 1000 \<and>
   Max (cpufreq_quick_get (rates (Some 1000) [1000, 500, 500, 500]) `
      (cpu_online_mask (quad asmp_param_init {0, 1}) - {0})) = 500"
  by code_simp

text \<open>
  The loop looks at a rate for \<open>fast_rate\<close> only in the \<open>else\<close> branch, when the rate is
  not a new minimum: rates that come in descending order never reach \<open>fast_rate\<close>.
\<close>

lemma fast_rate_skips_new_minimum:
  "asmp_sample (rates (Some 1000) [100, 900, 800, 800])
     (quad asmp_param_init {0, 1, 2}) = (2, 100, 100)"
  by code_simp

text \<open>
  Claim C4, amended. \<open>slow_rate\<close> is the minimum of the sampled rates of all online cpus,
  cpu 0 included. \<open>fast_rate\<close> starts from the rate of cpu 0 and counts it: it is never
  below the rate of cpu 0, it is the sampled rate of some online cpu (so at most the
  maximum over all online cpus, cpu 0 included), and it is the rate of cpu 0 when no other
  cpu is online.
\<close>

theorem sample_slow_and_fast_rate:
  assumes "wf_state s"
  shows "fst (snd (asmp_sample pl s)) = Min (cpufreq_quick_get pl ` cpu_online_mask s) \<and>
         cpufreq_quick_get pl 0 \<le> snd (snd (asmp_sample pl s)) \<and>
         snd (snd (asmp_sample pl s)) \<in> cpufreq_quick_get pl ` cpu_online_mask s \<and>
         snd (snd (asmp_sample pl s)) \<le> Max (cpufreq_quick_get pl ` cpu_online_mask s) \<and>
         (cpu_online_mask s = {0} \<longrightarrow> snd (snd (asmp_sample pl s)) = cpufreq_quick_get pl 0)"
proof -
  let ?r = "cpufreq_quick_get pl"
  let ?on = "cpu_online_mask s"
  from assms have fin: "finite ?on" and zero: "0 \<in> ?on"
    by (simp_all add: wf_state_finite) (simp add: wf_state_def)
  have xs: "set (for_each_online_cpu s) = ?on"
    by (rule set_for_each_online_cpu [OF assms])
  have img: "?r ` ?on = insert (?r 0) (?r ` (?on - {0}))"
    using zero by auto
  have "fst (snd (asmp_sample pl s)) = min (?r 0) (Min (insert UINT_MAX (?r ` (?on - {0}))))"
    by (simp add: asmp_sample_rates scan_loop_slow_rate xs del: Min_insert)
  also have "\<dots> = Min (insert (?r 0) (insert UINT_MAX (?r ` (?on - {0}))))"
    using fin by (intro Min_insert [symmetric]) auto
  also have "\<dots> = Min (insert (min (?r 0) UINT_MAX) (?r ` (?on - {0})))"
    using fin by (simp only: Min_insert_insert finite_imageI finite_Diff)
  also have "\<dots> = Min (?r ` ?on)"
    by (simp only: img min.absorb1 [OF UINT_MAX_greatest])
  finally have slow: "fst (snd (asmp_sample pl s)) = Min (?r ` ?on)" .
  from scan_loop_fast_rate [where fr = "?r 0" and pl = pl and xs = "for_each_online_cpu s"
      and sc = 0 and sr = UINT_MAX]
  have ge: "?r 0 \<le> snd (snd (asmp_sample pl s))"
    and cases: "snd (snd (asmp_sample pl s)) = ?r 0 \<or> snd (snd (asmp_sample pl s)) \<in> ?r ` (?on - {0})"
    by (simp_all add: asmp_sample_rates xs)
  from cases zero have mem: "snd (snd (asmp_sample pl s)) \<in> ?r ` ?on"
    by auto
  with fin have le: "snd (snd (asmp_sample pl s)) \<le> Max (?r ` ?on)"
    by simp
  from cases have "snd (snd (asmp_sample pl s)) = ?r 0" if "?on = {0}"
    using that by simp
  with slow ge mem le show ?thesis by blast
qed

theorem sample_slow_and_fast_rate_witness:
  "wf_state (quad asmp_param_init {0, 1, 2}) \<and>
   asmp_sample (rates (Some 1000) [700, 300, 700, 700]) (quad asmp_param_init {0, 1, 2}) =
     (1, 300, 700) \<and>
   Min (cpufreq_quick_get (rates (Some 1000) [700, 300, 700, 700]) `
      cpu_online_mask (quad asmp_param_init {0, 1, 2})) = 300 \<and>
   cpufreq_quick_get (rates (Some 1000) [700, 300, 700, 700]) 0 = 700"
proof -
  let ?pl = "rates (Some 1000) [700, 300, 700, 700]"
  let ?s = "quad asmp_param_init {0, 1, 2}"
  have wf: "wf_state ?s"
    by (simp add: wf_quad)
  have v: "asmp_sample ?pl ?s = (1, 300, 700)"
    by code_simp
  have z: "cpufreq_quick_get ?pl 0 = 700"
    by code_simp
  from sample_slow_and_fast_rate [OF wf, of ?pl] wf v z show ?thesis
    by simp
qed

end
